theory Spec2Isabelle
  imports Complex_Main
begin

section \<open>Data model (types/database.types.ts and pages/EmergencyEvacuation)\<close>

text \<open>
  The enums \<open>response_type\<close> and \<open>severity_level\<close> of the generated database types.
\<close>

datatype response_type = Yes | No

datatype severity_level = Low | Medium | High | Critical

text \<open>
  \<open>Tables<'alerts'>\<close>: the row type of the alerts table. The column \<open>id\<close> is called
  \<open>id_col\<close> here, since \<open>id\<close> is the identity function of HOL.
\<close>

record alert =
  created_at :: string
  id_col :: string
  location :: string
  message :: string
  severity :: severity_level
  title :: string

text \<open>
  \<open>Tables<'alert_responses'>\<close>: a stored response row. Its columns \<open>id\<close>,
  \<open>created_at\<close> and \<open>response\<close> carry the prefix \<open>row_\<close>, the names being taken by
  the records around it.
\<close>

record alert_response_row =
  alert_id :: string
  row_created_at :: string
  row_id :: int
  row_response :: response_type
  user_id :: string

text \<open>\<open>Tables<'shelters'>\<close>. The coordinates are numbers; they are never computed with.\<close>

record shelter =
  address :: string
  capacity :: int
  contact :: "string option"
  shelter_created_at :: string
  current_occupancy :: int
  facilities :: "string list option"
  shelter_id :: string
  lat :: real
  lng :: real
  name :: string

text \<open>
  \<open>interface EvacuationAlert extends Alert { responded: boolean; response?: AlertResponse }\<close>.
  An absent or \<open>undefined\<close> response is \<open>None\<close>.
\<close>

record evacuation_alert = alert +
  responded :: bool
  response :: "response_type option"

text \<open>
  The object spread \<open>{ ...alert, responded: b, response: r }\<close>: every column of the row,
  then the two view fields.
\<close>

definition spread :: "alert \<Rightarrow> bool \<Rightarrow> response_type option \<Rightarrow> evacuation_alert" where
  "spread a b r =
     \<lparr>created_at = created_at a, id_col = id_col a, location = location a,
      message = message a, severity = severity a, title = title a,
      responded = b, response = r\<rparr>"

text \<open>The component's \<open>useState\<close> cells.\<close>

record view_state =
  alerts :: "evacuation_alert list"
  shelters :: "shelter list"
  loading :: bool
  helpQuery :: string
  querySubmitted :: bool
  error :: "string option"

definition initial_state :: view_state where
  "initial_state =
     \<lparr>alerts = [], shelters = [], loading = True, helpQuery = [],
      querySubmitted = False, error = None\<rparr>"

section \<open>The backend boundary\<close>

text \<open>
  Every request the component sends through the query builder is recorded: the table,
  the verb, and for an insert the object that is written. The verbs are those the query
  builder offers, so that "the code never updates or deletes" is a statement about the
  requests the model emits and not about a type that lacks the constructors.
\<close>

datatype verb = Select | Insert | Update | Delete | Upsert

record insert_payload =
  p_alert_id :: string
  p_user_id :: string
  p_response :: response_type

record request =
  table :: string
  action :: verb
  filter_user :: "string option"
  payload :: "insert_payload option"

definition select_alerts :: request where
  "select_alerts = \<lparr>table = ''alerts'', action = Select, filter_user = None, payload = None\<rparr>"

definition select_responses :: "string \<Rightarrow> request" where
  "select_responses uid =
     \<lparr>table = ''alert_responses'', action = Select, filter_user = Some uid, payload = None\<rparr>"

definition select_shelters :: request where
  "select_shelters = \<lparr>table = ''shelters'', action = Select, filter_user = None, payload = None\<rparr>"

definition insert_response :: "string \<Rightarrow> string \<Rightarrow> response_type \<Rightarrow> request" where
  "insert_response aid uid r =
     \<lparr>table = ''alert_responses'', action = Insert, filter_user = None,
      payload = Some \<lparr>p_alert_id = aid, p_user_id = uid, p_response = r\<rparr>\<rparr>"

text \<open>
  What an awaited request gives back: \<open>{ data, error: null }\<close>, \<open>{ data: null, error }\<close>,
  or a rejected promise, which the \<open>try\<close> block of the load catches.
\<close>

datatype 'a reply = Data 'a | Failed | Rejected

fun is_error :: "'a reply \<Rightarrow> bool" where
  "is_error Failed = True"
| "is_error _ = False"

text \<open>A request that did not give data: it came back with an error, or it was rejected.\<close>

fun no_data :: "'a reply \<Rightarrow> bool" where
  "no_data (Data d) = False"
| "no_data _ = True"

section \<open>Load: fetchInitialData\<close>

text \<open>
  \<open>new Map(pairs)\<close> sets the entries one after the other, so a later pair with the same
  key replaces an earlier one. \<open>has\<close> and \<open>get\<close> read the map.
\<close>

definition new_Map :: "('k \<times> 'v) list \<Rightarrow> ('k \<rightharpoonup> 'v)" where
  "new_Map ps = foldl (\<lambda>m (k, v). m(k \<mapsto> v)) Map.empty ps"

definition has :: "('k \<rightharpoonup> 'v) \<Rightarrow> 'k \<Rightarrow> bool" where
  "has m k = (m k \<noteq> None)"

definition get :: "('k \<rightharpoonup> 'v) \<Rightarrow> 'k \<Rightarrow> 'v option" where
  "get m k = m k"

definition userResponses :: "alert_response_row list \<Rightarrow> (string \<rightharpoonup> response_type)" where
  "userResponses responsesData = new_Map (map (\<lambda>r. (alert_id r, row_response r)) responsesData)"

definition enrichedAlerts :: "alert list \<Rightarrow> alert_response_row list \<Rightarrow> evacuation_alert list" where
  "enrichedAlerts alertsData responsesData =
     map (\<lambda>a. spread a (has (userResponses responsesData) (id_col a))
                        (get (userResponses responsesData) (id_col a))) alertsData"

definition msg_alerts :: string where
  "msg_alerts = ''Failed to fetch alerts data. Please try again later.''"

definition msg_shelters :: string where
  "msg_shelters = ''Failed to fetch shelters data. Please try again later.''"

definition msg_unexpected :: string where
  "msg_unexpected = ''An unexpected error occurred. Please try again later.''"

text \<open>
  The \<open>catch\<close> and \<open>finally\<close> blocks: the message of the catch, then \<open>setLoading(false)\<close>.
  \<open>finally_block\<close> alone is what runs after a \<open>return\<close> inside \<open>try\<close>.
\<close>

definition finally_block :: "view_state \<Rightarrow> view_state" where
  "finally_block s = s\<lparr>loading := False\<rparr>"

definition catch_block :: "view_state \<Rightarrow> view_state" where
  "catch_block s = finally_block (s\<lparr>error := Some msg_unexpected\<rparr>)"

text \<open>
  \<open>fetchInitialData\<close>, with the three replies of the backend as arguments. It returns the
  view state once the function has finished and the requests it has sent, in order.
  The alerts and the responses are both requested before either error is looked at; the
  shelters are requested only after \<open>setAlerts(enrichedAlerts)\<close>.
\<close>

definition fetchInitialData ::
  "string option \<Rightarrow> alert list reply \<Rightarrow> alert_response_row list reply \<Rightarrow> shelter list reply
     \<Rightarrow> view_state \<Rightarrow> view_state \<times> request list" where
  "fetchInitialData user alertsReply responsesReply sheltersReply s =
     (case user of
        None \<Rightarrow> (s, [])
      | Some uid \<Rightarrow>
          (let s1 = s\<lparr>loading := True, error := None\<rparr> in
           if alertsReply = Rejected then (catch_block s1, [select_alerts])
           else if responsesReply = Rejected
             then (catch_block s1, [select_alerts, select_responses uid])
           else
             (case (alertsReply, responsesReply) of
                (Data alertsData, Data responsesData) \<Rightarrow>
                  (let s2 = s1\<lparr>alerts := enrichedAlerts alertsData responsesData\<rparr>;
                       sent = [select_alerts, select_responses uid, select_shelters]
                   in case sheltersReply of
                        Rejected \<Rightarrow> (catch_block s2, sent)
                      | Failed \<Rightarrow> (finally_block (s2\<lparr>error := Some msg_shelters\<rparr>), sent)
                      | Data sheltersData \<Rightarrow>
                          (finally_block (s2\<lparr>shelters := sheltersData\<rparr>), sent))
              | _ \<Rightarrow>
                  (finally_block (s1\<lparr>error := Some msg_alerts\<rparr>),
                   [select_alerts, select_responses uid]))))"

section \<open>Submit: handleAlertResponse\<close>

definition msg_submit :: string where
  "msg_submit = ''Failed to submit response. Please try again.''"

text \<open>
  The two updaters handed to \<open>setAlerts\<close>: the optimistic update and the revert. Both map
  over the whole list and rewrite every entry whose id is \<open>alertId\<close>.
\<close>

definition optimistic :: "string \<Rightarrow> response_type \<Rightarrow> evacuation_alert list \<Rightarrow> evacuation_alert list" where
  "optimistic alertId r prev =
     map (\<lambda>a. if id_col a = alertId then a\<lparr>responded := True, response := Some r\<rparr> else a) prev"

definition revert :: "string \<Rightarrow> evacuation_alert list \<Rightarrow> evacuation_alert list" where
  "revert alertId prev =
     map (\<lambda>a. if id_col a = alertId then a\<lparr>responded := False, response := None\<rparr> else a) prev"

text \<open>
  \<open>handleAlertResponse\<close> up to its \<open>await\<close>: the guard on the user, the optimistic update,
  and the insert that is sent. This is the state the view is in while the write is not
  yet answered.
\<close>

definition handleAlertResponse_optimistic ::
  "string option \<Rightarrow> string \<Rightarrow> response_type \<Rightarrow> view_state \<Rightarrow> view_state \<times> request list" where
  "handleAlertResponse_optimistic user alertId r s =
     (case user of
        None \<Rightarrow> (s, [])
      | Some uid \<Rightarrow>
          (s\<lparr>alerts := optimistic alertId r (alerts s)\<rparr>, [insert_response alertId uid r]))"

text \<open>
  \<open>handleAlertResponse\<close> after its \<open>await\<close>, on the state of that moment: when the insert
  came back with an error, the message and the revert; otherwise nothing. The function
  has no \<open>try\<close>: a rejected promise ends it, and nothing more is written.
\<close>

definition handleAlertResponse_resume :: "string \<Rightarrow> unit reply \<Rightarrow> view_state \<Rightarrow> view_state" where
  "handleAlertResponse_resume alertId insertReply s =
     (if is_error insertReply
      then s\<lparr>error := Some msg_submit, alerts := revert alertId (alerts s)\<rparr>
      else s)"

text \<open>The whole function, when no other event comes in between.\<close>

definition handleAlertResponse ::
  "string option \<Rightarrow> string \<Rightarrow> response_type \<Rightarrow> unit reply \<Rightarrow> view_state
     \<Rightarrow> view_state \<times> request list" where
  "handleAlertResponse user alertId r insertReply s =
     (case user of
        None \<Rightarrow> (s, [])
      | Some uid \<Rightarrow>
          (let (s1, sent) = handleAlertResponse_optimistic user alertId r s
           in (handleAlertResponse_resume alertId insertReply s1, sent)))"

section \<open>Live alert arrival\<close>

text \<open>
  The callback of the channel:
  \<open>setAlerts(prev => [{ ...newAlert, responded: false }, ...prev])\<close>. The new entry has no
  \<open>response\<close> key.
\<close>

definition onAlertInsert :: "alert \<Rightarrow> view_state \<Rightarrow> view_state" where
  "onAlertInsert newAlert s = s\<lparr>alerts := spread newAlert False None # alerts s\<rparr>"

section \<open>The per-alert client state machine\<close>

text \<open>
  The events that reach the component once it shows the list: a notification, a click
  on one of the two buttons of an entry, and the answer to an insert that is in flight
  (acknowledged or failed). The component's state is its view together with the ids of
  the inserts that are not yet answered.
\<close>

datatype event = Notify alert | Click string response_type | Ack string | Fail string

record component =
  view :: view_state
  inflight :: "string list"

text \<open>
  The buttons of an entry are rendered when the list is (\<open>loading\<close> is false) and the
  entry has \<open>!alert.responded\<close>; they call \<open>handleAlertResponse(alert.id, ...)\<close>.
\<close>

definition button_shown :: "view_state \<Rightarrow> string \<Rightarrow> bool" where
  "button_shown s alertId =
     (\<not> loading s \<and> list_ex (\<lambda>a. id_col a = alertId \<and> \<not> responded a) (alerts s))"

fun fire :: "string option \<Rightarrow> event \<Rightarrow> component \<Rightarrow> component option" where
  "fire user (Notify newAlert) c = Some (c\<lparr>view := onAlertInsert newAlert (view c)\<rparr>)"
| "fire user (Click alertId r) c =
     (if button_shown (view c) alertId
      then Some (c\<lparr>view := fst (handleAlertResponse_optimistic user alertId r (view c)),
                   inflight := (case user of None \<Rightarrow> inflight c
                                | Some uid \<Rightarrow> alertId # inflight c)\<rparr>)
      else None)"
| "fire user (Ack alertId) c =
     (if alertId \<in> set (inflight c)
      then Some (c\<lparr>view := handleAlertResponse_resume alertId (Data ()) (view c),
                   inflight := remove1 alertId (inflight c)\<rparr>)
      else None)"
| "fire user (Fail alertId) c =
     (if alertId \<in> set (inflight c)
      then Some (c\<lparr>view := handleAlertResponse_resume alertId Failed (view c),
                   inflight := remove1 alertId (inflight c)\<rparr>)
      else None)"

fun run :: "string option \<Rightarrow> event list \<Rightarrow> component \<Rightarrow> component option" where
  "run user [] c = Some c"
| "run user (e # es) c = (case fire user e c of None \<Rightarrow> None | Some c' \<Rightarrow> run user es c')"

section \<open>The realtime subscription\<close>

text \<open>
  The page: the view of the component, the constant \<open>channel\<close> of the effect that is
  running (if one is), and on the side of the realtime client the channels that are
  subscribed and the reference the next channel gets.
\<close>

record page =
  page_view :: view_state
  channel :: "nat option"
  subscribed :: "nat list"
  next_ref :: nat

text \<open>
  Modelled from the spec: the delivery of a notification by the realtime client, which
  \<open>lib/supabase\<close> exports and which is not among the sources. The spec has the component
  hold "a standing subscription to alert-creation notifications for as long as it is
  mounted" and has the backend issue "row-creation notifications scoped to the alerts
  table". So a notification runs the callback of every subscribed channel once; the
  callback of each channel of this component is \<open>onAlertInsert\<close>.
\<close>

definition deliver :: "alert \<Rightarrow> page \<Rightarrow> page" where
  "deliver newAlert p =
     p\<lparr>page_view := foldr (\<lambda>c. onAlertInsert newAlert) (subscribed p) (page_view p)\<rparr>"

text \<open>
  Modelled from the spec: \<open>supabase.removeChannel\<close> of the same client ("Teardown
  unsubscribes when the component is unmounted"). The channel is taken out of the
  subscribed ones.
\<close>

definition removeChannel :: "nat \<Rightarrow> page \<Rightarrow> page" where
  "removeChannel c p = p\<lparr>subscribed := removeAll c (subscribed p)\<rparr>"

text \<open>
  The effect of the component, as far as the subscription goes: its body creates a
  channel and subscribes it, and keeps it in the constant \<open>channel\<close>; the function it
  returns removes that channel.
\<close>

definition effect_subscribe :: "page \<Rightarrow> page" where
  "effect_subscribe p =
     p\<lparr>channel := Some (next_ref p), subscribed := next_ref p # subscribed p,
       next_ref := Suc (next_ref p)\<rparr>"

definition effect_cleanup :: "page \<Rightarrow> page" where
  "effect_cleanup p =
     (case channel p of
        None \<Rightarrow> p
      | Some c \<Rightarrow> (removeChannel c p)\<lparr>channel := None\<rparr>)"

text \<open>
  The life of the page: the effect runs on mount and when the user changes, its cleanup
  runs before the next effect and on unmount, and notifications come in at any time.
\<close>

datatype life = Effect | Cleanup | Delivered alert

fun live :: "life \<Rightarrow> page \<Rightarrow> page option" where
  "live Effect p = (if channel p = None then Some (effect_subscribe p) else None)"
| "live Cleanup p = (if channel p = None then None else Some (effect_cleanup p))"
| "live (Delivered newAlert) p = Some (deliver newAlert p)"

fun lifetime :: "life list \<Rightarrow> page \<Rightarrow> page option" where
  "lifetime [] p = Some p"
| "lifetime (e # es) p = (case live e p of None \<Rightarrow> None | Some p' \<Rightarrow> lifetime es p')"

text \<open>Notifications that arrive one after the other.\<close>

fun deliveries :: "alert list \<Rightarrow> page \<Rightarrow> page" where
  "deliveries [] p = p"
| "deliveries (newAlert # rest) p = deliveries rest (deliver newAlert p)"

text \<open>
  The channels that are subscribed are the one the running effect holds, if an effect is
  running, and no other.
\<close>

definition one_channel :: "page \<Rightarrow> bool" where
  "one_channel p = (subscribed p = (case channel p of None \<Rightarrow> [] | Some c \<Rightarrow> [c]))"

definition fresh_page :: "view_state \<Rightarrow> page" where
  "fresh_page s = \<lparr>page_view = s, channel = None, subscribed = [], next_ref = 0\<rparr>"

section \<open>Requests that write\<close>

definition response_writes :: "request list \<Rightarrow> request list" where
  "response_writes sent = filter (\<lambda>q. table q = ''alert_responses'' \<and> action q \<noteq> Select) sent"

section \<open>Example data\<close>

definition alert1 :: alert where
  "alert1 = \<lparr>created_at = ''2025-07-16T12:00:00Z'', id_col = ''a1'', location = ''Riverside'',
      message = ''Evacuate now'', severity = Critical, title = ''Flood''\<rparr>"

definition alert2 :: alert where
  "alert2 = \<lparr>created_at = ''2025-07-16T11:00:00Z'', id_col = ''a2'', location = ''Hill road'',
      message = ''Stay alert'', severity = Low, title = ''Landslide watch''\<rparr>"

definition alert3 :: alert where
  "alert3 = \<lparr>created_at = ''2025-07-16T13:00:00Z'', id_col = ''a3'', location = ''Harbour'',
      message = ''Move to higher ground'', severity = High, title = ''Storm surge''\<rparr>"

definition row1 :: alert_response_row where
  "row1 = \<lparr>alert_id = ''a1'', row_created_at = ''2025-07-16T12:05:00Z'', row_id = 1,
      row_response = Yes, user_id = ''u1''\<rparr>"

text \<open>The view after a load of both alerts for a user who has answered the first.\<close>

definition loaded_view :: view_state where
  "loaded_view =
     fst (fetchInitialData (Some ''u1'') (Data [alert1, alert2]) (Data [row1]) (Data [])
            initial_state)"

section \<open>Properties of the load\<close>

lemma new_Map_snoc: "new_Map (ps @ [(k, v)]) = (new_Map ps)(k \<mapsto> v)"
  by (simp add: new_Map_def)

lemma new_Map_Nil: "new_Map [] = Map.empty"
  by (simp add: new_Map_def)

lemma new_Map_None: "new_Map ps k = None \<longleftrightarrow> k \<notin> fst ` set ps"
proof (induction ps rule: rev_induct)
  case Nil
  show ?case by (simp add: new_Map_Nil)
next
  case (snoc p ps)
  obtain k' v' where p: "p = (k', v')" by (cases p)
  show ?case using snoc.IH by (simp add: p new_Map_snoc)
qed

lemma new_Map_last:
  "k \<notin> fst ` set post \<Longrightarrow> new_Map (pre @ (k, v) # post) k = Some v"
proof (induction post rule: rev_induct)
  case Nil
  show ?case by (simp add: new_Map_snoc)
next
  case (snoc p post)
  obtain k' v' where p: "p = (k', v')" by (cases p)
  from snoc.prems p have ne: "k' \<noteq> k" and rest: "k \<notin> fst ` set post" by auto
  have "new_Map (pre @ (k, v) # post @ [p]) = (new_Map (pre @ (k, v) # post))(k' \<mapsto> v')"
    using new_Map_snoc [of "pre @ (k, v) # post" k' v'] p by simp
  with ne snoc.IH [OF rest] show ?case by simp
qed

lemma userResponses_None:
  "userResponses rs k = None \<longleftrightarrow> (\<forall>r \<in> set rs. alert_id r \<noteq> k)"
  by (auto simp: userResponses_def new_Map_None image_iff)

lemma userResponses_last:
  assumes "alert_id r = k" and "\<forall>x \<in> set post. alert_id x \<noteq> k"
  shows "userResponses (pre @ r # post) k = Some (row_response r)"
proof -
  have "k \<notin> fst ` set (map (\<lambda>r. (alert_id r, row_response r)) post)"
    using assms(2) by (auto simp: image_iff)
  from new_Map_last [OF this] assms(1) show ?thesis
    by (simp add: userResponses_def)
qed

lemma alerts_after_load:
  "alerts (fst (fetchInitialData (Some uid) (Data alertsData) (Data responsesData) sheltersReply s))
     = enrichedAlerts alertsData responsesData"
  by (cases sheltersReply) (simp_all add: fetchInitialData_def finally_block_def catch_block_def)

lemma loaded_view_alerts:
  "alerts loaded_view = [spread alert1 True (Some Yes), spread alert2 False None]"
  by (simp add: loaded_view_def alerts_after_load enrichedAlerts_def userResponses_def
      new_Map_def has_def get_def alert1_def alert2_def row1_def)

text \<open>
  C1. After a load in which the alerts and the current user's responses were fetched,
  every alert \<open>A\<close> of the list has \<open>responded\<close> exactly when the fetched responses
  contain a row whose \<open>alert_id\<close> is \<open>A.id\<close>, and then \<open>A.response\<close> is the value of
  the last such row; when no two fetched rows share an \<open>alert_id\<close> (the unique
  constraint of the table, for one user), it is the value of every such row. The reply
  for the shelters plays no part.
\<close>

theorem load_joins_responses:
  "\<forall>A \<in> set (alerts (fst (fetchInitialData (Some uid) (Data alertsData) (Data responsesData)
                              sheltersReply s))).
     (responded A \<longleftrightarrow> (\<exists>r \<in> set responsesData. alert_id r = id_col A)) \<and>
     (responded A \<longrightarrow>
        (\<exists>pre r post. responsesData = pre @ r # post \<and> alert_id r = id_col A \<and>
           (\<forall>x \<in> set post. alert_id x \<noteq> id_col A) \<and> response A = Some (row_response r))) \<and>
     (distinct (map alert_id responsesData) \<longrightarrow>
        (\<forall>r \<in> set responsesData. alert_id r = id_col A \<longrightarrow> response A = Some (row_response r)))"
proof
  fix A
  assume "A \<in> set (alerts (fst (fetchInitialData (Some uid) (Data alertsData) (Data responsesData)
                              sheltersReply s)))"
  then obtain a where a: "a \<in> set alertsData"
    and A: "A = spread a (has (userResponses responsesData) (id_col a))
                         (get (userResponses responsesData) (id_col a))"
    by (auto simp: alerts_after_load enrichedAlerts_def)
  let ?k = "id_col a"
  have idA: "id_col A = ?k" and respA: "response A = userResponses responsesData ?k"
    and rA: "responded A \<longleftrightarrow> userResponses responsesData ?k \<noteq> None"
    by (simp_all add: A spread_def has_def get_def)
  have iff: "responded A \<longleftrightarrow> (\<exists>r \<in> set responsesData. alert_id r = id_col A)"
    using userResponses_None [of responsesData ?k] by (auto simp: rA idA)
  have lastrow: "\<exists>pre r post. responsesData = pre @ r # post \<and> alert_id r = id_col A \<and>
           (\<forall>x \<in> set post. alert_id x \<noteq> id_col A) \<and> response A = Some (row_response r)"
    if "responded A"
  proof -
    from that iff have "\<exists>r \<in> set responsesData. alert_id r = ?k" by (simp add: idA)
    then have "\<exists>pre r post. responsesData = pre @ r # post \<and> alert_id r = ?k \<and>
                 (\<forall>x \<in> set post. alert_id x \<noteq> ?k)"
      using split_list_last_prop [of responsesData "\<lambda>r. alert_id r = ?k"] by blast
    then obtain pre r post where sp: "responsesData = pre @ r # post" "alert_id r = ?k"
      "\<forall>x \<in> set post. alert_id x \<noteq> ?k" by blast
    from userResponses_last [OF sp(2) sp(3), of pre] sp show ?thesis
      unfolding idA respA by blast
  qed
  have uniq: "response A = Some (row_response r)"
    if d: "distinct (map alert_id responsesData)" and r: "r \<in> set responsesData"
      and k: "alert_id r = id_col A" for r
  proof -
    from r obtain pre post where sp: "responsesData = pre @ r # post"
      by (auto simp: in_set_conv_decomp)
    from d have "alert_id r \<notin> alert_id ` set post" unfolding sp by simp
    then have "\<forall>x \<in> set post. alert_id x \<noteq> alert_id r" by (metis imageI)
    with k idA have "\<forall>x \<in> set post. alert_id x \<noteq> ?k" by simp
    from userResponses_last [OF _ this, of r pre] k idA sp respA show ?thesis by simp
  qed
  show "(responded A \<longleftrightarrow> (\<exists>r \<in> set responsesData. alert_id r = id_col A)) \<and>
     (responded A \<longrightarrow>
        (\<exists>pre r post. responsesData = pre @ r # post \<and> alert_id r = id_col A \<and>
           (\<forall>x \<in> set post. alert_id x \<noteq> id_col A) \<and> response A = Some (row_response r))) \<and>
     (distinct (map alert_id responsesData) \<longrightarrow>
        (\<forall>r \<in> set responsesData. alert_id r = id_col A \<longrightarrow> response A = Some (row_response r)))"
    using iff lastrow uniq by blast
qed


theorem load_joins_responses_witness:
  "alerts loaded_view ! 0 \<in> set (alerts loaded_view) \<and>
   id_col (alerts loaded_view ! 0) = alert_id row1 \<and>
   responded (alerts loaded_view ! 0) \<and>
   response (alerts loaded_view ! 0) = Some (row_response row1) \<and>
   alerts loaded_view ! 1 \<in> set (alerts loaded_view) \<and>
   id_col (alerts loaded_view ! 1) \<noteq> alert_id row1 \<and>
   \<not> responded (alerts loaded_view ! 1)"
proof -
  note joined = load_joins_responses [of "''u1''" "[alert1, alert2]" "[row1]" "Data []" initial_state,
      folded loaded_view_def, rule_format]
  have m0: "alerts loaded_view ! 0 \<in> set (alerts loaded_view)"
    and m1: "alerts loaded_view ! 1 \<in> set (alerts loaded_view)"
    by (simp_all add: loaded_view_alerts)
  have k0: "id_col (alerts loaded_view ! 0) = alert_id row1"
    and k1: "id_col (alerts loaded_view ! 1) \<noteq> alert_id row1"
    by (simp_all add: loaded_view_alerts spread_def alert1_def alert2_def row1_def)
  have r0: "responded (alerts loaded_view ! 0)"
    using joined [OF m0, THEN conjunct1] k0 by simp
  have v0: "response (alerts loaded_view ! 0) = Some (row_response row1)"
    using joined [OF m0, THEN conjunct2, THEN conjunct2] k0 by simp
  have r1: "\<not> responded (alerts loaded_view ! 1)"
    using joined [OF m1, THEN conjunct1] k1 by simp
  show ?thesis
    by (intro conjI) (rule m0 k0 r0 v0 m1 k1 r1)+
qed

section \<open>Properties of the submit\<close>

lemma optimistic_length: "length (optimistic alertId r prev) = length prev"
  by (simp add: optimistic_def)

lemma revert_length: "length (revert alertId prev) = length prev"
  by (simp add: revert_def)

lemma revert_entries:
  "a \<in> set (revert alertId prev) \<Longrightarrow> id_col a = alertId \<Longrightarrow> \<not> responded a \<and> response a = None"
proof -
  assume mem: "a \<in> set (revert alertId prev)" and k: "id_col a = alertId"
  from mem obtain b where b: "b \<in> set prev"
    and a: "a = (if id_col b = alertId then b\<lparr>responded := False, response := None\<rparr> else b)"
    unfolding revert_def by (auto simp only: set_map image_iff)
  show ?thesis
  proof (cases "id_col b = alertId")
    case True
    with a show ?thesis by simp
  next
    case False
    with a k show ?thesis by simp
  qed
qed

text \<open>
  C2. The page is rendered with a current user only (\<open>ProtectedRoute\<close>), and the
  buttons call \<open>handleAlertResponse\<close> with that user. The code of
  \<open>handleAlertResponse\<close> that runs before the insert is awaited turns every entry with
  the submitted id and \<open>responded == false\<close> into the same entry with
  \<open>responded == true\<close> and the submitted value, and it has sent the insert by then.
\<close>

theorem submit_is_optimistic:
  assumes "user = Some uid"
  shows "length (alerts (fst (handleAlertResponse_optimistic user alertId r s))) = length (alerts s) \<and>
    (\<forall>i < length (alerts s).
       id_col (alerts s ! i) = alertId \<and> \<not> responded (alerts s ! i) \<longrightarrow>
         alerts (fst (handleAlertResponse_optimistic user alertId r s)) ! i
           = (alerts s ! i)\<lparr>responded := True, response := Some r\<rparr>) \<and>
    snd (handleAlertResponse_optimistic user alertId r s) = [insert_response alertId uid r]"
  using assms by (simp add: handleAlertResponse_optimistic_def optimistic_def)

theorem submit_is_optimistic_witness:
  "map responded (alerts loaded_view) = [True, False] \<and>
   alerts (fst (handleAlertResponse_optimistic (Some ''u1'') ''a2'' No loaded_view)) ! 1
     = spread alert2 True (Some No)"
  using submit_is_optimistic [of "Some ''u1''" "''u1''" "''a2''" No loaded_view]
  by (simp add: loaded_view_alerts spread_def alert1_def alert2_def)

lemma handleAlertResponse_failed:
  "handleAlertResponse (Some uid) alertId r Failed s =
     (s\<lparr>error := Some msg_submit, alerts := revert alertId (optimistic alertId r (alerts s))\<rparr>,
      [insert_response alertId uid r])"
  by (simp add: handleAlertResponse_def handleAlertResponse_optimistic_def
      handleAlertResponse_resume_def)

lemma revert_optimistic_nth:
  "i < length prev \<Longrightarrow>
   revert alertId (optimistic alertId r prev) ! i =
     (if id_col (prev ! i) = alertId then (prev ! i)\<lparr>responded := False, response := None\<rparr>
      else prev ! i)"
  by (simp add: revert_def optimistic_def)

lemma unanswered_fixed:
  "\<not> responded (a::evacuation_alert) \<Longrightarrow> response a = None \<Longrightarrow>
   a\<lparr>responded := False, response := None\<rparr> = a"
  by simp

text \<open>
  The path of the error reply. When a user is known and the insert comes back with an
  error, every entry with the submitted id ends with \<open>responded == false\<close> and no
  response, which is the entry as it was before the submission when it was unanswered
  then; the other entries are as they were; the message of the failed submission is set;
  and the insert is the only request that was sent. The revert does the same on whatever
  view the answer finds (\<open>later\<close>).
\<close>

lemma error_reply_reverts:
  assumes "user = Some uid" and "insertReply = Failed"
  shows "length (alerts (fst (handleAlertResponse user alertId r insertReply s))) = length (alerts s) \<and>
    (\<forall>i < length (alerts s).
       (id_col (alerts s ! i) = alertId \<longrightarrow>
          alerts (fst (handleAlertResponse user alertId r insertReply s)) ! i
            = (alerts s ! i)\<lparr>responded := False, response := None\<rparr>) \<and>
       (id_col (alerts s ! i) = alertId \<and> \<not> responded (alerts s ! i) \<and> response (alerts s ! i) = None \<longrightarrow>
          alerts (fst (handleAlertResponse user alertId r insertReply s)) ! i = alerts s ! i) \<and>
       (id_col (alerts s ! i) \<noteq> alertId \<longrightarrow>
          alerts (fst (handleAlertResponse user alertId r insertReply s)) ! i = alerts s ! i)) \<and>
    (\<forall>a \<in> set (alerts (handleAlertResponse_resume alertId insertReply later)).
       id_col a = alertId \<longrightarrow> \<not> responded a \<and> response a = None) \<and>
    error (handleAlertResponse_resume alertId insertReply later) = Some msg_submit \<and>
    error (fst (handleAlertResponse user alertId r insertReply s)) = Some msg_submit \<and>
    snd (handleAlertResponse user alertId r insertReply s) = [insert_response alertId uid r]"
proof -
  let ?s' = "fst (handleAlertResponse user alertId r insertReply s)"
  have run: "handleAlertResponse user alertId r insertReply s =
     (s\<lparr>error := Some msg_submit, alerts := revert alertId (optimistic alertId r (alerts s))\<rparr>,
      [insert_response alertId uid r])"
    unfolding assms by (rule handleAlertResponse_failed)
  have list: "alerts ?s' = revert alertId (optimistic alertId r (alerts s))"
    by (simp add: run)
  have len: "length (alerts ?s') = length (alerts s)"
    by (simp add: list revert_length optimistic_length)
  have entries: "\<forall>i < length (alerts s).
       (id_col (alerts s ! i) = alertId \<longrightarrow>
          alerts ?s' ! i = (alerts s ! i)\<lparr>responded := False, response := None\<rparr>) \<and>
       (id_col (alerts s ! i) = alertId \<and> \<not> responded (alerts s ! i) \<and> response (alerts s ! i) = None \<longrightarrow>
          alerts ?s' ! i = alerts s ! i) \<and>
       (id_col (alerts s ! i) \<noteq> alertId \<longrightarrow> alerts ?s' ! i = alerts s ! i)"
  proof (intro allI impI)
    fix i assume i: "i < length (alerts s)"
    have nth: "alerts ?s' ! i =
        (if id_col (alerts s ! i) = alertId
         then (alerts s ! i)\<lparr>responded := False, response := None\<rparr> else alerts s ! i)"
      unfolding list by (rule revert_optimistic_nth [OF i])
    show "(id_col (alerts s ! i) = alertId \<longrightarrow>
          alerts ?s' ! i = (alerts s ! i)\<lparr>responded := False, response := None\<rparr>) \<and>
       (id_col (alerts s ! i) = alertId \<and> \<not> responded (alerts s ! i) \<and> response (alerts s ! i) = None \<longrightarrow>
          alerts ?s' ! i = alerts s ! i) \<and>
       (id_col (alerts s ! i) \<noteq> alertId \<longrightarrow> alerts ?s' ! i = alerts s ! i)"
      unfolding nth using unanswered_fixed [of "alerts s ! i"] by simp
  qed
  have resumed: "\<forall>a \<in> set (alerts (handleAlertResponse_resume alertId insertReply later)).
       id_col a = alertId \<longrightarrow> \<not> responded a \<and> response a = None"
  proof (intro ballI impI)
    fix a assume "a \<in> set (alerts (handleAlertResponse_resume alertId insertReply later))"
      and k: "id_col a = alertId"
    then have "a \<in> set (revert alertId (alerts later))"
      by (simp add: handleAlertResponse_resume_def assms(2))
    from revert_entries [OF this k] show "\<not> responded a \<and> response a = None" .
  qed
  have message: "error (handleAlertResponse_resume alertId insertReply later) = Some msg_submit"
    by (simp add: handleAlertResponse_resume_def assms(2))
  have message': "error ?s' = Some msg_submit"
    by (simp add: run)
  have sent: "snd (handleAlertResponse user alertId r insertReply s) = [insert_response alertId uid r]"
    by (simp add: run)
  show ?thesis
    by (intro conjI) (rule len entries resumed message message' sent)+
qed

lemma error_reply_reverts_example:
  "alerts (fst (handleAlertResponse (Some ''u1'') ''a2'' Yes Failed loaded_view)) = alerts loaded_view \<and>
   map responded (alerts loaded_view) = [True, False] \<and>
   map response (alerts loaded_view) = [Some Yes, None] \<and>
   error (fst (handleAlertResponse (Some ''u1'') ''a2'' Yes Failed loaded_view)) = Some msg_submit \<and>
   snd (handleAlertResponse (Some ''u1'') ''a2'' Yes Failed loaded_view) = [insert_response ''a2'' ''u1'' Yes]"
proof -
  let ?s' = "fst (handleAlertResponse (Some ''u1'') ''a2'' Yes Failed loaded_view)"
  note inst = error_reply_reverts [of "Some ''u1''" "''u1''" Failed "''a2''" Yes loaded_view loaded_view,
      OF refl refl]
  from inst have l2: "length (alerts ?s') = length (alerts loaded_view)"
    by (rule conjunct1)
  from inst have entries: "\<forall>i < length (alerts loaded_view).
       (id_col (alerts loaded_view ! i) = ''a2'' \<longrightarrow>
          alerts ?s' ! i = (alerts loaded_view ! i)\<lparr>responded := False, response := None\<rparr>) \<and>
       (id_col (alerts loaded_view ! i) = ''a2'' \<and> \<not> responded (alerts loaded_view ! i)
          \<and> response (alerts loaded_view ! i) = None \<longrightarrow>
          alerts ?s' ! i = alerts loaded_view ! i) \<and>
       (id_col (alerts loaded_view ! i) \<noteq> ''a2'' \<longrightarrow> alerts ?s' ! i = alerts loaded_view ! i)"
    by (rule conjunct2 [THEN conjunct1])
  from inst have msg: "error ?s' = Some msg_submit"
    by (rule conjunct2 [THEN conjunct2, THEN conjunct2, THEN conjunct2, THEN conjunct1])
  from inst have sent: "snd (handleAlertResponse (Some ''u1'') ''a2'' Yes Failed loaded_view)
      = [insert_response ''a2'' ''u1'' Yes]"
    by (rule conjunct2 [THEN conjunct2, THEN conjunct2, THEN conjunct2, THEN conjunct2])
  have len: "length (alerts loaded_view) = 2" by (simp add: loaded_view_alerts)
  have a0: "id_col (alerts loaded_view ! 0) \<noteq> ''a2''"
    and a1: "id_col (alerts loaded_view ! 1) = ''a2''" "\<not> responded (alerts loaded_view ! 1)"
       "response (alerts loaded_view ! 1) = None"
    by (simp_all add: loaded_view_alerts spread_def alert1_def alert2_def)
  have e0: "alerts ?s' ! 0 = alerts loaded_view ! 0"
    using entries [rule_format, of 0] len a0 by simp
  have e1: "alerts ?s' ! 1 = alerts loaded_view ! 1"
    using entries [rule_format, of 1] len a1 by simp
  have same: "alerts ?s' = alerts loaded_view"
  proof (rule nth_equalityI [OF l2])
    fix i assume "i < length (alerts ?s')"
    then have "i = 0 \<or> i = 1" using l2 len by auto
    then show "alerts ?s' ! i = alerts loaded_view ! i" using e0 e1 by auto
  qed
  have flags: "map responded (alerts loaded_view) = [True, False]"
    and stored: "map response (alerts loaded_view) = [Some Yes, None]"
    by (simp_all add: loaded_view_alerts spread_def)
  show ?thesis
    by (intro conjI) (rule same flags stored msg sent)+
qed

lemma loaded_view_eq:
  "loaded_view =
     \<lparr>alerts = [spread alert1 True (Some Yes), spread alert2 False None], shelters = [],
      loading = False, helpQuery = [], querySubmitted = False, error = None\<rparr>"
  by (simp add: loaded_view_def fetchInitialData_def finally_block_def initial_state_def
      enrichedAlerts_def userResponses_def new_Map_def has_def get_def alert1_def alert2_def
      row1_def)

lemma example_ids:
  "id_col (spread alert1 b r) = ''a1''" "id_col (spread alert2 b r) = ''a2''"
  "id_col (spread alert3 b r) = ''a3''" "id_col alert1 = ''a1''" "id_col alert2 = ''a2''"
  "id_col alert3 = ''a3''"
  "responded (spread x b r) = b" "response (spread x b r) = r"
  by (simp_all add: spread_def alert1_def alert2_def alert3_def)

lemma spread_update:
  "(spread x b r)\<lparr>responded := b', response := r'\<rparr> = spread x b' r'"
  by (simp add: spread_def)


section \<open>Properties of the notification handler\<close>

text \<open>
  C9. The callback prepends whatever the list holds: when an entry with the id of the
  notified alert is already there, the list has that id twice afterwards.
\<close>

theorem notification_ignores_duplicates:
  "alerts (onAlertInsert newAlert s) = spread newAlert False None # alerts s \<and>
   (id_col newAlert \<in> id_col ` set (alerts s) \<longrightarrow>
      \<not> distinct (map id_col (alerts (onAlertInsert newAlert s))))"
  by (simp add: onAlertInsert_def spread_def)

theorem notification_ignores_duplicates_witness:
  "distinct (map id_col (alerts loaded_view)) \<and>
   id_col alert1 \<in> id_col ` set (alerts loaded_view) \<and>
   map id_col (alerts (onAlertInsert alert1 loaded_view)) = [''a1'', ''a1'', ''a2''] \<and>
   \<not> distinct (map id_col (alerts (onAlertInsert alert1 loaded_view)))"
  using notification_ignores_duplicates [of alert1 loaded_view]
  by (simp add: loaded_view_alerts spread_def alert1_def alert2_def)

section \<open>Without a user\<close>

text \<open>
  C10. With no current user, \<open>fetchInitialData\<close> and \<open>handleAlertResponse\<close> return at
  their guard: the view is the one they were called on, and no request has been sent.
\<close>

theorem no_user_no_effect:
  "fetchInitialData None alertsReply responsesReply sheltersReply s = (s, []) \<and>
   handleAlertResponse None alertId r insertReply s = (s, [])"
  by (simp add: fetchInitialData_def handleAlertResponse_def)

theorem no_user_no_effect_witness:
  "fetchInitialData None (Data [alert1]) (Data [row1]) (Data []) loaded_view = (loaded_view, []) \<and>
   handleAlertResponse None ''a2'' Yes (Data ()) loaded_view = (loaded_view, [])"
  using no_user_no_effect [of "Data [alert1]" "Data [row1]" "Data []" loaded_view "''a2''" Yes "Data ()"]
  by simp

section \<open>Failure of the load, and the requests that are sent\<close>

lemma fetch_early_failure:
  assumes "no_data alertsReply \<or> no_data responsesReply"
  shows "alerts (fst (fetchInitialData (Some uid) alertsReply responsesReply sheltersReply s)) = alerts s"
    and "shelters (fst (fetchInitialData (Some uid) alertsReply responsesReply sheltersReply s)) = shelters s"
    and "error (fst (fetchInitialData (Some uid) alertsReply responsesReply sheltersReply s))
           \<in> {Some msg_alerts, Some msg_unexpected}"
    and "loading (fst (fetchInitialData (Some uid) alertsReply responsesReply sheltersReply s)) = False"
    and "snd (fetchInitialData (Some uid) alertsReply responsesReply sheltersReply s)
           \<in> {[select_alerts], [select_alerts, select_responses uid]}"
  using assms
  by (cases alertsReply; cases responsesReply;
      simp add: fetchInitialData_def catch_block_def finally_block_def)+

lemma fetch_late_failure:
  assumes "no_data sheltersReply"
  shows "alerts (fst (fetchInitialData (Some uid) (Data alertsData) (Data responsesData) sheltersReply s))
           = enrichedAlerts alertsData responsesData"
    and "shelters (fst (fetchInitialData (Some uid) (Data alertsData) (Data responsesData) sheltersReply s))
           = shelters s"
    and "error (fst (fetchInitialData (Some uid) (Data alertsData) (Data responsesData) sheltersReply s))
           \<in> {Some msg_shelters, Some msg_unexpected}"
    and "loading (fst (fetchInitialData (Some uid) (Data alertsData) (Data responsesData) sheltersReply s))
           = False"
    and "snd (fetchInitialData (Some uid) (Data alertsData) (Data responsesData) sheltersReply s)
           = [select_alerts, select_responses uid, select_shelters]"
  using assms
  by (cases sheltersReply; simp add: fetchInitialData_def catch_block_def finally_block_def)+

lemma fetch_sent:
  "snd (fetchInitialData (Some uid) alertsReply responsesReply sheltersReply s)
     \<in> {[select_alerts], [select_alerts, select_responses uid],
         [select_alerts, select_responses uid, select_shelters]}"
  by (cases alertsReply; cases responsesReply; cases sheltersReply;
      simp add: fetchInitialData_def catch_block_def finally_block_def)

lemma requests_distinct:
  "distinct [select_alerts, select_responses uid, select_shelters]"
  by (simp add: select_alerts_def select_responses_def select_shelters_def)

lemma response_writes_selects:
  "response_writes [select_alerts] = []"
  "response_writes [select_alerts, select_responses uid] = []"
  "response_writes [select_alerts, select_responses uid, select_shelters] = []"
  by (simp_all add: response_writes_def select_alerts_def select_responses_def select_shelters_def)

lemma response_writes_insert:
  "response_writes [insert_response alertId uid r] = [insert_response alertId uid r]"
  by (simp add: response_writes_def insert_response_def)


text \<open>
  C5 (as amended). When a user is known and one of the three requests of the load gives
  no data, one of the three error messages is set, \<open>loading\<close> ends, the shelters of the
  view are the old ones, and every request has been sent at most once. The alerts of
  the view are the old ones when the alerts or the responses gave no data; when both
  gave data and only the shelters did not, the alerts of this attempt are in the view.
\<close>

theorem failed_load_commits_what_came_before:
  assumes "user = Some uid"
    and "no_data alertsReply \<or> no_data responsesReply \<or> no_data sheltersReply"
  shows "error (fst (fetchInitialData user alertsReply responsesReply sheltersReply s))
           \<in> {Some msg_alerts, Some msg_shelters, Some msg_unexpected} \<and>
    loading (fst (fetchInitialData user alertsReply responsesReply sheltersReply s)) = False \<and>
    shelters (fst (fetchInitialData user alertsReply responsesReply sheltersReply s)) = shelters s \<and>
    (no_data alertsReply \<or> no_data responsesReply \<longrightarrow>
       alerts (fst (fetchInitialData user alertsReply responsesReply sheltersReply s)) = alerts s) \<and>
    (\<forall>alertsData responsesData.
       alertsReply = Data alertsData \<and> responsesReply = Data responsesData \<longrightarrow>
       alerts (fst (fetchInitialData user alertsReply responsesReply sheltersReply s))
         = enrichedAlerts alertsData responsesData) \<and>
    distinct (snd (fetchInitialData user alertsReply responsesReply sheltersReply s)) \<and>
    set (snd (fetchInitialData user alertsReply responsesReply sheltersReply s))
      \<subseteq> {select_alerts, select_responses uid, select_shelters}"
proof -
  let ?out = "fetchInitialData user alertsReply responsesReply sheltersReply s"
  have sent: "snd ?out \<in> {[select_alerts], [select_alerts, select_responses uid],
         [select_alerts, select_responses uid, select_shelters]}"
    unfolding assms(1) by (rule fetch_sent)
  have d: "distinct (snd ?out)"
    using sent requests_distinct [of uid] by auto
  have sub: "set (snd ?out) \<subseteq> {select_alerts, select_responses uid, select_shelters}"
    using sent by auto
  have "error (fst ?out) \<in> {Some msg_alerts, Some msg_shelters, Some msg_unexpected} \<and>
    loading (fst ?out) = False \<and> shelters (fst ?out) = shelters s \<and>
    (no_data alertsReply \<or> no_data responsesReply \<longrightarrow> alerts (fst ?out) = alerts s) \<and>
    (\<forall>alertsData responsesData.
       alertsReply = Data alertsData \<and> responsesReply = Data responsesData \<longrightarrow>
       alerts (fst ?out) = enrichedAlerts alertsData responsesData)"
  proof (cases "no_data alertsReply \<or> no_data responsesReply")
    case True
    note early = fetch_early_failure [OF True, of uid sheltersReply s, folded assms(1)]
    have e: "error (fst ?out) \<in> {Some msg_alerts, Some msg_shelters, Some msg_unexpected}"
      using early(3) by auto
    have keep: "no_data alertsReply \<or> no_data responsesReply \<longrightarrow> alerts (fst ?out) = alerts s"
      using early(1) by simp
    have a: "\<forall>alertsData responsesData.
       alertsReply = Data alertsData \<and> responsesReply = Data responsesData \<longrightarrow>
       alerts (fst ?out) = enrichedAlerts alertsData responsesData"
      using True by auto
    show ?thesis
      by (intro conjI) (rule e early(4) early(2) keep a)+
  next
    case False
    then obtain alertsData responsesData
      where ar: "alertsReply = Data alertsData" and rr: "responsesReply = Data responsesData"
      by (cases alertsReply; cases responsesReply) auto
    from False assms(2) have sh: "no_data sheltersReply" by simp
    note late = fetch_late_failure [OF sh, of uid alertsData responsesData s,
        folded assms(1) ar rr]
    have e: "error (fst ?out) \<in> {Some msg_alerts, Some msg_shelters, Some msg_unexpected}"
      using late(3) by auto
    have keep: "no_data alertsReply \<or> no_data responsesReply \<longrightarrow> alerts (fst ?out) = alerts s"
      using False by simp
    have a: "\<forall>x y. alertsReply = Data x \<and> responsesReply = Data y \<longrightarrow>
        alerts (fst ?out) = enrichedAlerts x y"
    proof (intro allI impI)
      fix x y assume "alertsReply = Data x \<and> responsesReply = Data y"
      with ar rr have "x = alertsData" "y = responsesData" by simp_all
      with late(1) show "alerts (fst ?out) = enrichedAlerts x y" by simp
    qed
    show ?thesis
      by (intro conjI) (rule e late(4) late(2) keep a)+
  qed
  with d sub show ?thesis by simp
qed

theorem failed_load_commits_what_came_before_witness:
  "no_data (Failed :: shelter list reply) \<and>
   error (fst (fetchInitialData (Some ''u1'') (Data [alert1, alert2]) (Data [row1]) Failed initial_state))
     \<in> {Some msg_alerts, Some msg_shelters, Some msg_unexpected} \<and>
   loading (fst (fetchInitialData (Some ''u1'') (Data [alert1, alert2]) (Data [row1]) Failed initial_state))
     = False \<and>
   shelters (fst (fetchInitialData (Some ''u1'') (Data [alert1, alert2]) (Data [row1]) Failed initial_state))
     = [] \<and>
   alerts (fst (fetchInitialData (Some ''u1'') (Data [alert1, alert2]) (Data [row1]) Failed initial_state))
     = enrichedAlerts [alert1, alert2] [row1] \<and>
   no_data (Failed :: alert list reply) \<and>
   alerts (fst (fetchInitialData (Some ''u1'') Failed (Data [row1]) (Data []) loaded_view))
     = alerts loaded_view"
proof -
  have nd1: "no_data (Failed :: shelter list reply)" and nd2: "no_data (Failed :: alert list reply)"
    by simp_all
  note late = failed_load_commits_what_came_before
    [where user = "Some ''u1''" and uid = "''u1''" and alertsReply = "Data [alert1, alert2]"
      and responsesReply = "Data [row1]" and sheltersReply = Failed and s = initial_state]
  note early = failed_load_commits_what_came_before
    [where user = "Some ''u1''" and uid = "''u1''" and alertsReply = Failed
      and responsesReply = "Data [row1]" and sheltersReply = "Data []" and s = loaded_view]
  have l: "error (fst (fetchInitialData (Some ''u1'') (Data [alert1, alert2]) (Data [row1]) Failed initial_state))
     \<in> {Some msg_alerts, Some msg_shelters, Some msg_unexpected} \<and>
   loading (fst (fetchInitialData (Some ''u1'') (Data [alert1, alert2]) (Data [row1]) Failed initial_state))
     = False \<and>
   shelters (fst (fetchInitialData (Some ''u1'') (Data [alert1, alert2]) (Data [row1]) Failed initial_state))
     = [] \<and>
   alerts (fst (fetchInitialData (Some ''u1'') (Data [alert1, alert2]) (Data [row1]) Failed initial_state))
     = enrichedAlerts [alert1, alert2] [row1]"
    using late by (simp add: initial_state_def)
  have e: "alerts (fst (fetchInitialData (Some ''u1'') Failed (Data [row1]) (Data []) loaded_view))
     = alerts loaded_view"
    using early by simp
  from nd1 l nd2 e show ?thesis by simp
qed

text \<open>
  The sentence of the spec has nothing of a failed attempt committed. When only the
  request for the shelters fails, \<open>setAlerts(enrichedAlerts)\<close> has already run.
\<close>

theorem shelters_failure_keeps_alerts_counterexample:
  "no_data (Failed :: shelter list reply) \<and>
   alerts initial_state = [] \<and>
   alerts (fst (fetchInitialData (Some ''u1'') (Data [alert1, alert2]) (Data [row1]) Failed initial_state))
     = [spread alert1 True (Some Yes), spread alert2 False None] \<and>
   error (fst (fetchInitialData (Some ''u1'') (Data [alert1, alert2]) (Data [row1]) Failed initial_state))
     = Some msg_shelters"
  by (simp add: fetchInitialData_def finally_block_def initial_state_def enrichedAlerts_def
      userResponses_def new_Map_def has_def get_def alert1_def alert2_def row1_def)

text \<open>
  C7. The requests of a submit that write to \<open>alert_responses\<close> are a single insert of
  \<open>{alert_id, user_id, response}\<close> when a user is known and none otherwise; a load
  writes nothing; and every request of either is a select or an insert, never an
  update, a delete or an upsert. The notification handler and the cleanup of the effect
  send no request.
\<close>

theorem only_write_is_one_insert:
  "response_writes (snd (handleAlertResponse user alertId r insertReply s))
     = (case user of None \<Rightarrow> [] | Some uid \<Rightarrow> [insert_response alertId uid r]) \<and>
   response_writes (snd (fetchInitialData user alertsReply responsesReply sheltersReply s)) = [] \<and>
   action (insert_response alertId uid r) = Insert \<and>
   table (insert_response alertId uid r) = ''alert_responses'' \<and>
   payload (insert_response alertId uid r)
     = Some \<lparr>p_alert_id = alertId, p_user_id = uid, p_response = r\<rparr> \<and>
   (\<forall>q \<in> set (snd (handleAlertResponse user alertId r insertReply s))
          \<union> set (snd (fetchInitialData user alertsReply responsesReply sheltersReply s)).
      action q \<in> {Select, Insert})"
proof -
  have w1: "response_writes (snd (handleAlertResponse user alertId r insertReply s))
     = (case user of None \<Rightarrow> [] | Some uid \<Rightarrow> [insert_response alertId uid r])"
    by (cases user)
      (simp_all add: handleAlertResponse_def handleAlertResponse_optimistic_def
        response_writes_insert, simp add: response_writes_def)
  have w2: "response_writes (snd (fetchInitialData user alertsReply responsesReply sheltersReply s)) = []"
  proof (cases user)
    case None
    then show ?thesis by (simp add: fetchInitialData_def response_writes_def)
  next
    case (Some u)
    show ?thesis
      using fetch_sent [of u alertsReply responsesReply sheltersReply s]
        response_writes_selects
      unfolding Some by auto
  qed
  have ins: "action (insert_response alertId uid r) = Insert"
    "table (insert_response alertId uid r) = ''alert_responses''"
    "payload (insert_response alertId uid r)
       = Some \<lparr>p_alert_id = alertId, p_user_id = uid, p_response = r\<rparr>"
    by (simp_all add: insert_response_def)
  have v1: "\<forall>q \<in> set (snd (handleAlertResponse user alertId r insertReply s)). action q \<in> {Select, Insert}"
    by (cases user)
      (simp_all add: handleAlertResponse_def handleAlertResponse_optimistic_def insert_response_def)
  have v2: "\<forall>q \<in> set (snd (fetchInitialData user alertsReply responsesReply sheltersReply s)).
      action q \<in> {Select, Insert}"
  proof (cases user)
    case None
    then show ?thesis by (simp add: fetchInitialData_def)
  next
    case (Some u)
    have "action select_alerts = Select" "action (select_responses u) = Select"
      "action select_shelters = Select"
      by (simp_all add: select_alerts_def select_responses_def select_shelters_def)
    then show ?thesis
      using fetch_sent [of u alertsReply responsesReply sheltersReply s]
      unfolding Some by auto
  qed
  from v1 v2 have v: "\<forall>q \<in> set (snd (handleAlertResponse user alertId r insertReply s))
          \<union> set (snd (fetchInitialData user alertsReply responsesReply sheltersReply s)).
      action q \<in> {Select, Insert}"
    by (simp add: ball_Un)
  show ?thesis
    by (intro conjI) (rule w1 w2 ins v)+
qed

theorem only_write_is_one_insert_witness:
  "response_writes (snd (handleAlertResponse (Some ''u1'') ''a2'' No (Data ()) loaded_view))
     = [insert_response ''a2'' ''u1'' No] \<and>
   response_writes (snd (handleAlertResponse (Some ''u1'') ''a2'' No Failed loaded_view))
     = [insert_response ''a2'' ''u1'' No] \<and>
   response_writes (snd (fetchInitialData (Some ''u1'') (Data [alert1, alert2]) (Data [row1]) (Data [])
        initial_state)) = [] \<and>
   snd (fetchInitialData (Some ''u1'') (Data [alert1, alert2]) (Data [row1]) (Data []) initial_state)
     = [select_alerts, select_responses ''u1'', select_shelters]"
proof -
  have a: "response_writes (snd (handleAlertResponse (Some ''u1'') ''a2'' No (Data ()) loaded_view))
     = [insert_response ''a2'' ''u1'' No]"
    using only_write_is_one_insert [where user = "Some ''u1''" and alertId = "''a2''" and r = No
        and insertReply = "Data ()" and s = loaded_view, THEN conjunct1]
    by simp
  have b: "response_writes (snd (handleAlertResponse (Some ''u1'') ''a2'' No Failed loaded_view))
     = [insert_response ''a2'' ''u1'' No]"
    using only_write_is_one_insert [where user = "Some ''u1''" and alertId = "''a2''" and r = No
        and insertReply = Failed and s = loaded_view, THEN conjunct1]
    by simp
  have c: "response_writes (snd (fetchInitialData (Some ''u1'') (Data [alert1, alert2]) (Data [row1]) (Data [])
        initial_state)) = []"
    using only_write_is_one_insert [where user = "Some ''u1''"
        and alertsReply = "Data [alert1, alert2]" and responsesReply = "Data [row1]"
        and sheltersReply = "Data []" and s = initial_state, THEN conjunct2, THEN conjunct1] .
  have d: "snd (fetchInitialData (Some ''u1'') (Data [alert1, alert2]) (Data [row1]) (Data []) initial_state)
     = [select_alerts, select_responses ''u1'', select_shelters]"
    by (simp add: fetchInitialData_def finally_block_def)
  show ?thesis
    by (intro conjI) (rule a b c d)+
qed

section \<open>Properties of the subscription\<close>

lemma fresh_page_one_channel: "one_channel (fresh_page s)"
  by (simp add: one_channel_def fresh_page_def)

lemma live_one_channel:
  assumes "one_channel p" and "live e p = Some q"
  shows "one_channel q"
proof (cases e)
  case Effect
  with assms(2) have c: "channel p = None" and q: "q = effect_subscribe p"
    by (simp_all split: if_splits)
  from assms(1) c have "subscribed p = []" by (simp add: one_channel_def)
  then show ?thesis by (simp add: q effect_subscribe_def one_channel_def)
next
  case Cleanup
  with assms(2) obtain c where c: "channel p = Some c" and q: "q = effect_cleanup p"
    by (auto split: if_splits)
  from assms(1) c have "subscribed p = [c]" by (simp add: one_channel_def)
  then show ?thesis by (simp add: q c effect_cleanup_def removeChannel_def one_channel_def)
next
  case (Delivered newAlert)
  with assms(2) have q: "q = deliver newAlert p" by simp
  from assms(1) show ?thesis by (simp add: q deliver_def one_channel_def)
qed

lemma lifetime_one_channel:
  assumes "lifetime es p = Some q" and "one_channel p"
  shows "one_channel q"
  using assms
proof (induction es arbitrary: p)
  case Nil
  then show ?case by simp
next
  case (Cons e es)
  from Cons.prems(1) obtain p1 where l: "live e p = Some p1" and r: "lifetime es p1 = Some q"
    by (auto split: option.splits)
  from Cons.IH [OF r live_one_channel [OF Cons.prems(2) l]] show ?case .
qed

lemma deliver_unsubscribed: "subscribed p = [] \<Longrightarrow> deliver newAlert p = p"
  by (simp add: deliver_def)

lemma deliveries_unsubscribed: "subscribed p = [] \<Longrightarrow> deliveries ns p = p"
  by (induction ns) (simp_all add: deliver_unsubscribed)

lemma deliver_subscribed_once:
  "subscribed p = [c] \<Longrightarrow> page_view (deliver newAlert p) = onAlertInsert newAlert (page_view p)"
  by (simp add: deliver_def)

text \<open>
  C8. Take any life of the page from a fresh one (effects, cleanups and notifications in
  any admissible order) and unmount it, which runs the cleanup of the running effect.
  Then no channel is subscribed, and whatever notifications are delivered afterwards,
  the page, and with it the list of alerts, stays as it was at the unmount.
\<close>

theorem no_list_mutation_after_unmount:
  assumes "lifetime es (fresh_page s) = Some p" and "live Cleanup p = Some q"
  shows "channel q = None \<and> subscribed q = [] \<and> page_view q = page_view p \<and>
         deliveries ns q = q \<and> alerts (page_view (deliveries ns q)) = alerts (page_view p)"
proof -
  from lifetime_one_channel [OF assms(1) fresh_page_one_channel] have inv: "one_channel p" .
  from assms(2) obtain c where c: "channel p = Some c" and q: "q = effect_cleanup p"
    by (auto split: if_splits)
  from inv c have sub: "subscribed p = [c]" by (simp add: one_channel_def)
  have ch: "channel q = None" and none: "subscribed q = []" and v: "page_view q = page_view p"
    by (simp_all add: q c sub effect_cleanup_def removeChannel_def)
  from deliveries_unsubscribed [OF none] have still: "deliveries ns q = q" .
  have same: "alerts (page_view (deliveries ns q)) = alerts (page_view p)"
    by (simp add: still v)
  show ?thesis
    by (intro conjI) (rule ch none v still same)+
qed

theorem no_list_mutation_after_unmount_witness:
  "lifetime [Effect, Delivered alert1] (fresh_page initial_state)
     = Some \<lparr>page_view = initial_state\<lparr>alerts := [spread alert1 False None]\<rparr>,
             channel = Some 0, subscribed = [0], next_ref = 1\<rparr> \<and>
   live Cleanup \<lparr>page_view = initial_state\<lparr>alerts := [spread alert1 False None]\<rparr>,
             channel = Some 0, subscribed = [0], next_ref = 1\<rparr>
     = Some \<lparr>page_view = initial_state\<lparr>alerts := [spread alert1 False None]\<rparr>,
             channel = None, subscribed = [], next_ref = 1\<rparr> \<and>
   alerts (page_view (deliveries [alert2, alert3]
       \<lparr>page_view = initial_state\<lparr>alerts := [spread alert1 False None]\<rparr>,
             channel = None, subscribed = [], next_ref = 1\<rparr>))
     = [spread alert1 False None]"
proof -
  let ?p = "\<lparr>page_view = initial_state\<lparr>alerts := [spread alert1 False None]\<rparr>,
             channel = Some 0, subscribed = [0], next_ref = 1\<rparr>"
  let ?q = "\<lparr>page_view = initial_state\<lparr>alerts := [spread alert1 False None]\<rparr>,
             channel = None, subscribed = [], next_ref = 1\<rparr>"
  have l: "lifetime [Effect, Delivered alert1] (fresh_page initial_state) = Some ?p"
    by (simp add: fresh_page_def effect_subscribe_def deliver_def onAlertInsert_def initial_state_def)
  have u: "live Cleanup ?p = Some ?q"
    by (simp add: effect_cleanup_def removeChannel_def)
  from no_list_mutation_after_unmount [OF l u, of "[alert2, alert3]"]
  have "alerts (page_view (deliveries [alert2, alert3] ?q)) = alerts (page_view ?p)"
    by (elim conjE)
  then have a: "alerts (page_view (deliveries [alert2, alert3] ?q)) = [spread alert1 False None]"
    by simp
  show ?thesis
    by (intro conjI) (rule l u a)+
qed

section \<open>Properties of the per-alert state machine\<close>

lemma optimistic_Cons:
  "optimistic alertId r (b # prev) =
     (if id_col b = alertId then b\<lparr>responded := True, response := Some r\<rparr> else b)
       # optimistic alertId r prev"
  by (simp add: optimistic_def)

lemma revert_Cons:
  "revert alertId (b # prev) =
     (if id_col b = alertId then b\<lparr>responded := False, response := None\<rparr> else b)
       # revert alertId prev"
  by (simp add: revert_def)

lemma optimistic_other:
  assumes "a \<in> set prev" and "id_col a \<noteq> alertId"
  shows "a \<in> set (optimistic alertId r prev)"
  using assms(1)
proof (induction prev)
  case Nil
  then show ?case by simp
next
  case (Cons b prev)
  show ?case
  proof (cases "a = b")
    case True
    with assms(2) show ?thesis unfolding optimistic_Cons by simp
  next
    case False
    with Cons.prems have "a \<in> set prev" by simp
    from Cons.IH [OF this] show ?thesis unfolding optimistic_Cons by simp
  qed
qed

lemma revert_other:
  assumes "a \<in> set prev" and "id_col a \<noteq> alertId"
  shows "a \<in> set (revert alertId prev)"
  using assms(1)
proof (induction prev)
  case Nil
  then show ?case by simp
next
  case (Cons b prev)
  show ?case
  proof (cases "a = b")
    case True
    with assms(2) show ?thesis unfolding revert_Cons by simp
  next
    case False
    with Cons.prems have "a \<in> set prev" by simp
    from Cons.IH [OF this] show ?thesis unfolding revert_Cons by simp
  qed
qed

lemma optimistic_back:
  assumes "b \<in> set (optimistic alertId r prev)" and "id_col b \<noteq> alertId"
  shows "b \<in> set prev"
  using assms(1)
proof (induction prev)
  case Nil
  then show ?case by (simp add: optimistic_def)
next
  case (Cons x prev)
  from Cons.prems have
    "b = (if id_col x = alertId then x\<lparr>responded := True, response := Some r\<rparr> else x)
     \<or> b \<in> set (optimistic alertId r prev)"
    unfolding optimistic_Cons by simp
  then show ?case
  proof
    assume b: "b = (if id_col x = alertId then x\<lparr>responded := True, response := Some r\<rparr> else x)"
    have "id_col x \<noteq> alertId"
    proof
      assume "id_col x = alertId"
      with b have "id_col b = alertId" by simp
      with assms(2) show False by simp
    qed
    with b show ?thesis by simp
  next
    assume "b \<in> set (optimistic alertId r prev)"
    from Cons.IH [OF this] show ?thesis by simp
  qed
qed

lemma revert_back:
  assumes "b \<in> set (revert alertId prev)" and "id_col b \<noteq> alertId"
  shows "b \<in> set prev"
  using assms(1)
proof (induction prev)
  case Nil
  then show ?case by (simp add: revert_def)
next
  case (Cons x prev)
  from Cons.prems have
    "b = (if id_col x = alertId then x\<lparr>responded := False, response := None\<rparr> else x)
     \<or> b \<in> set (revert alertId prev)"
    unfolding revert_Cons by simp
  then show ?case
  proof
    assume b: "b = (if id_col x = alertId then x\<lparr>responded := False, response := None\<rparr> else x)"
    have "id_col x \<noteq> alertId"
    proof
      assume "id_col x = alertId"
      with b have "id_col b = alertId" by simp
      with assms(2) show False by simp
    qed
    with b show ?thesis by simp
  next
    assume "b \<in> set (revert alertId prev)"
    from Cons.IH [OF this] show ?thesis by simp
  qed
qed

lemma button_needs_unanswered:
  assumes "button_shown s alertId"
    and "\<forall>b \<in> set (alerts s). id_col b = k \<longrightarrow> responded b"
  shows "alertId \<noteq> k"
proof
  assume k: "alertId = k"
  from assms(1) obtain b where b: "b \<in> set (alerts s)" "id_col b = alertId" "\<not> responded b"
    unfolding button_shown_def list_ex_iff by blast
  from assms(2) b(1) b(2) k have "responded b" by simp
  with b(3) show False by simp
qed

lemma fire_keeps_answered:
  assumes f: "fire user e c = Some c1"
    and n: "\<And>newAlert. e = Notify newAlert \<Longrightarrow> id_col newAlert \<noteq> k"
    and a: "a \<in> set (alerts (view c))" "id_col a = k"
    and all: "\<forall>b \<in> set (alerts (view c)). id_col b = k \<longrightarrow> responded b"
    and i: "k \<notin> set (inflight c)"
  shows "a \<in> set (alerts (view c1)) \<and>
         (\<forall>b \<in> set (alerts (view c1)). id_col b = k \<longrightarrow> responded b) \<and>
         k \<notin> set (inflight c1)"
proof (cases e)
  case (Notify newAlert)
  with f have c1: "c1 = c\<lparr>view := onAlertInsert newAlert (view c)\<rparr>" by simp
  have l: "alerts (view c1) = spread newAlert False None # alerts (view c)"
    and infl: "inflight c1 = inflight c"
    by (simp_all add: c1 onAlertInsert_def)
  have new: "id_col (spread newAlert False None) \<noteq> k"
    using n [OF Notify] by (simp add: spread_def)
  have mem: "a \<in> set (alerts (view c1))" using a(1) by (simp add: l)
  have still: "\<forall>b \<in> set (alerts (view c1)). id_col b = k \<longrightarrow> responded b"
    unfolding l using all new by simp
  from mem still i infl show ?thesis by simp
next
  case (Click alertId r)
  with f have shown: "button_shown (view c) alertId"
    by (simp split: if_splits)
  from button_needs_unanswered [OF shown all] have ne: "alertId \<noteq> k" .
  show ?thesis
  proof (cases user)
    case None
    with f Click shown have "c1 = c\<lparr>view := view c, inflight := inflight c\<rparr>"
      by (simp add: handleAlertResponse_optimistic_def)
    then have "view c1 = view c" "inflight c1 = inflight c" by simp_all
    with a all i show ?thesis by simp
  next
    case (Some uid)
    with f Click shown have
      c1: "c1 = c\<lparr>view := (view c)\<lparr>alerts := optimistic alertId r (alerts (view c))\<rparr>,
                    inflight := alertId # inflight c\<rparr>"
      by (simp add: handleAlertResponse_optimistic_def)
    have l: "alerts (view c1) = optimistic alertId r (alerts (view c))"
      and infl: "inflight c1 = alertId # inflight c"
      by (simp_all add: c1)
    from a(2) ne have "id_col a \<noteq> alertId" by simp
    from optimistic_other [OF a(1) this] have mem: "a \<in> set (alerts (view c1))"
      unfolding l .
    have still: "\<forall>b \<in> set (alerts (view c1)). id_col b = k \<longrightarrow> responded b"
    proof (intro ballI impI)
      fix b assume b: "b \<in> set (alerts (view c1))" and bk: "id_col b = k"
      from bk ne have "id_col b \<noteq> alertId" by simp
      from optimistic_back [OF b [unfolded l] this] have "b \<in> set (alerts (view c))" .
      with all bk show "responded b" by simp
    qed
    from ne i have "k \<notin> set (inflight c1)" unfolding infl by simp
    with mem still show ?thesis by simp
  qed
next
  case (Ack alertId)
  with f have inl: "alertId \<in> set (inflight c)"
    by (simp split: if_splits)
  with f Ack have c1: "c1 = c\<lparr>view := view c, inflight := remove1 alertId (inflight c)\<rparr>"
    by (simp add: handleAlertResponse_resume_def)
  have v: "view c1 = view c" and infl: "inflight c1 = remove1 alertId (inflight c)"
    by (simp_all add: c1)
  from i have "k \<notin> set (inflight c1)"
    unfolding infl using notin_set_remove1 by fast
  with a(1) all v show ?thesis by simp
next
  case (Fail alertId)
  with f have inl: "alertId \<in> set (inflight c)"
    by (simp split: if_splits)
  with i have ne: "alertId \<noteq> k" by auto
  from f Fail inl have
    c1: "c1 = c\<lparr>view := (view c)\<lparr>error := Some msg_submit,
                                   alerts := revert alertId (alerts (view c))\<rparr>,
                  inflight := remove1 alertId (inflight c)\<rparr>"
    by (simp add: handleAlertResponse_resume_def)
  have l: "alerts (view c1) = revert alertId (alerts (view c))"
    and infl: "inflight c1 = remove1 alertId (inflight c)"
    by (simp_all add: c1)
  from a(2) ne have "id_col a \<noteq> alertId" by simp
  from revert_other [OF a(1) this] have mem: "a \<in> set (alerts (view c1))"
    unfolding l .
  have still: "\<forall>b \<in> set (alerts (view c1)). id_col b = k \<longrightarrow> responded b"
  proof (intro ballI impI)
    fix b assume b: "b \<in> set (alerts (view c1))" and bk: "id_col b = k"
    from bk ne have "id_col b \<noteq> alertId" by simp
    from revert_back [OF b [unfolded l] this] have "b \<in> set (alerts (view c))" .
    with all bk show "responded b" by simp
  qed
  from i have "k \<notin> set (inflight c1)"
    unfolding infl using notin_set_remove1 by fast
  with mem still show ?thesis by simp
qed

text \<open>
  C6 (as amended). Take an entry that is answered: \<open>responded == true\<close>, and no insert for
  its id in flight. As long as no entry with its id is unanswered and no notification
  repeats its id, then after any sequence of notifications, button clicks,
  acknowledgements and failures the entry is still in the list, unchanged, every entry
  with its id is answered, and no insert for its id is in flight. Entries and
  notifications with other ids may repeat as they like.
\<close>

theorem answered_is_terminal_unless_id_repeated:
  assumes "run user es c = Some c'"
    and "a \<in> set (alerts (view c))" and "responded a" and "id_col a \<notin> set (inflight c)"
    and "\<forall>b \<in> set (alerts (view c)). id_col b = id_col a \<longrightarrow> responded b"
    and "\<forall>newAlert. Notify newAlert \<in> set es \<longrightarrow> id_col newAlert \<noteq> id_col a"
  shows "a \<in> set (alerts (view c')) \<and>
         (\<forall>b \<in> set (alerts (view c')). id_col b = id_col a \<longrightarrow> responded b) \<and>
         id_col a \<notin> set (inflight c')"
  using assms(1) assms(2) assms(4) assms(5) assms(6)
proof (induction es arbitrary: c)
  case Nil
  then show ?case by simp
next
  case (Cons e es)
  from Cons.prems(1) obtain c1 where f: "fire user e c = Some c1" and r: "run user es c1 = Some c'"
    by (auto split: option.splits)
  have n: "\<And>newAlert. e = Notify newAlert \<Longrightarrow> id_col newAlert \<noteq> id_col a"
    using Cons.prems(5) by simp
  have rest: "\<forall>newAlert. Notify newAlert \<in> set es \<longrightarrow> id_col newAlert \<noteq> id_col a"
    using Cons.prems(5) by simp
  from fire_keeps_answered [OF f n Cons.prems(2) refl Cons.prems(4) Cons.prems(3)]
  have step: "a \<in> set (alerts (view c1))"
    "\<forall>b \<in> set (alerts (view c1)). id_col b = id_col a \<longrightarrow> responded b"
    "id_col a \<notin> set (inflight c1)" by simp_all
  from Cons.IH [OF r step(1) step(3) step(2) rest] show ?case .
qed

theorem answered_is_terminal_unless_id_repeated_witness:
  "run (Some ''u1'') [Notify alert2, Click ''a2'' No, Fail ''a2'', Notify alert3]
       \<lparr>view = loaded_view, inflight = []\<rparr>
     = Some \<lparr>view = loaded_view
                \<lparr>alerts := [spread alert3 False None, spread alert2 False None,
                             spread alert1 True (Some Yes), spread alert2 False None],
                 error := Some msg_submit\<rparr>,
              inflight = []\<rparr> \<and>
   spread alert1 True (Some Yes) \<in> set (alerts loaded_view) \<and>
   responded (spread alert1 True (Some Yes)) \<and>
   spread alert1 True (Some Yes) \<in>
     set (alerts (loaded_view
                \<lparr>alerts := [spread alert3 False None, spread alert2 False None,
                             spread alert1 True (Some Yes), spread alert2 False None],
                 error := Some msg_submit\<rparr>))"
proof -
  let ?es = "[Notify alert2, Click ''a2'' No, Fail ''a2'', Notify alert3]"
  let ?c = "\<lparr>view = loaded_view, inflight = []\<rparr>"
  let ?c' = "\<lparr>view = loaded_view
                \<lparr>alerts := [spread alert3 False None, spread alert2 False None,
                             spread alert1 True (Some Yes), spread alert2 False None],
                 error := Some msg_submit\<rparr>,
              inflight = []\<rparr>"
  let ?a = "spread alert1 True (Some Yes)"
  have r: "run (Some ''u1'') ?es ?c = Some ?c'"
    by (simp add: loaded_view_eq button_shown_def onAlertInsert_def
        handleAlertResponse_optimistic_def handleAlertResponse_resume_def
        optimistic_def revert_def example_ids spread_update)
  have a: "?a \<in> set (alerts (view ?c))"
    by (simp add: loaded_view_eq)
  have ra: "responded ?a"
    by (simp add: example_ids)
  have i: "id_col ?a \<notin> set (inflight ?c)"
    by simp
  have all: "\<forall>b \<in> set (alerts (view ?c)). id_col b = id_col ?a \<longrightarrow> responded b"
    by (simp add: loaded_view_eq example_ids)
  have n: "\<forall>newAlert. Notify newAlert \<in> set ?es \<longrightarrow> id_col newAlert \<noteq> id_col ?a"
    by (simp add: example_ids)
  from answered_is_terminal_unless_id_repeated [OF r a ra i all n]
  have m: "?a \<in> set (alerts (view ?c'))"
    by (rule conjunct1)
  from a have a': "?a \<in> set (alerts loaded_view)" by simp
  from m have m': "?a \<in>
     set (alerts (loaded_view
                \<lparr>alerts := [spread alert3 False None, spread alert2 False None,
                             spread alert1 True (Some Yes), spread alert2 False None],
                 error := Some msg_submit\<rparr>))" by simp
  show ?thesis
    by (intro conjI) (rule r a' ra m')+
qed

text \<open>
  Without the condition on the id the statement fails. The first alert is loaded with a
  stored response; a notification repeats its id; the new entry has buttons, and its
  click submits for that id; the insert fails; the revert rewrites every entry with that
  id, and the entry that was loaded as answered has \<open>responded == false\<close>.
\<close>

theorem duplicate_notification_reopens_answered_counterexample:
  "alerts loaded_view = [spread alert1 True (Some Yes), spread alert2 False None] \<and>
   responded (spread alert1 True (Some Yes)) \<and>
   run (Some ''u1'') [Notify alert1, Click ''a1'' No, Fail ''a1'']
       \<lparr>view = loaded_view, inflight = []\<rparr>
     = Some \<lparr>view = loaded_view
                \<lparr>alerts := [spread alert1 False None, spread alert1 False None,
                             spread alert2 False None],
                 error := Some msg_submit\<rparr>,
              inflight = []\<rparr>"
  by (simp add: loaded_view_eq button_shown_def onAlertInsert_def
      handleAlertResponse_optimistic_def handleAlertResponse_resume_def
      optimistic_def revert_def example_ids spread_update)

section \<open>Notifications while the page is mounted\<close>

text \<open>
  C4. Take any life of the page from a fresh one that ends with an effect running, so
  that the page is mounted. A notification that is delivered then adds exactly one
  entry, at the head of the list: the notified row with \<open>responded == false\<close> and no
  response. The entries that were there follow unchanged, and nothing else of the page
  is written. This rests on the effect subscribing one channel and on its cleanup
  removing that channel before the next effect runs.
\<close>

theorem mounted_notification_prepends_one:
  assumes "lifetime es (fresh_page s) = Some p" and "channel p = Some c"
  shows "alerts (page_view (deliver newAlert p))
           = spread newAlert False None # alerts (page_view p) \<and>
    length (alerts (page_view (deliver newAlert p))) = Suc (length (alerts (page_view p))) \<and>
    alert.truncate (hd (alerts (page_view (deliver newAlert p)))) = newAlert \<and>
    responded (hd (alerts (page_view (deliver newAlert p)))) = False \<and>
    response (hd (alerts (page_view (deliver newAlert p)))) = None \<and>
    tl (alerts (page_view (deliver newAlert p))) = alerts (page_view p) \<and>
    deliver newAlert p
      = p\<lparr>page_view := (page_view p)\<lparr>alerts := spread newAlert False None # alerts (page_view p)\<rparr>\<rparr>"
proof -
  from lifetime_one_channel [OF assms(1) fresh_page_one_channel] have "one_channel p" .
  with assms(2) have sub: "subscribed p = [c]" by (simp add: one_channel_def)
  have whole: "deliver newAlert p
      = p\<lparr>page_view := (page_view p)\<lparr>alerts := spread newAlert False None # alerts (page_view p)\<rparr>\<rparr>"
    by (simp add: deliver_def sub onAlertInsert_def)
  have list: "alerts (page_view (deliver newAlert p))
           = spread newAlert False None # alerts (page_view p)"
    by (simp add: whole)
  have len: "length (alerts (page_view (deliver newAlert p))) = Suc (length (alerts (page_view p)))"
    by (simp add: list)
  have row: "alert.truncate (hd (alerts (page_view (deliver newAlert p)))) = newAlert"
    by (simp add: list spread_def alert.truncate_def)
  have r: "responded (hd (alerts (page_view (deliver newAlert p)))) = False"
    and v: "response (hd (alerts (page_view (deliver newAlert p)))) = None"
    by (simp_all add: list spread_def)
  have rest: "tl (alerts (page_view (deliver newAlert p))) = alerts (page_view p)"
    by (simp add: list)
  show ?thesis
    by (intro conjI) (rule list len row r v rest whole)+
qed

theorem mounted_notification_prepends_one_witness:
  "lifetime [Effect, Delivered alert1, Cleanup, Delivered alert3, Effect] (fresh_page initial_state)
     = Some \<lparr>page_view = initial_state\<lparr>alerts := [spread alert1 False None]\<rparr>,
             channel = Some 1, subscribed = [1], next_ref = 2\<rparr> \<and>
   alerts (page_view (deliver alert2
       \<lparr>page_view = initial_state\<lparr>alerts := [spread alert1 False None]\<rparr>,
             channel = Some 1, subscribed = [1], next_ref = 2\<rparr>))
     = [spread alert2 False None, spread alert1 False None]"
proof -
  let ?p = "\<lparr>page_view = initial_state\<lparr>alerts := [spread alert1 False None]\<rparr>,
             channel = Some 1, subscribed = [1], next_ref = 2\<rparr>"
  have l: "lifetime [Effect, Delivered alert1, Cleanup, Delivered alert3, Effect]
      (fresh_page initial_state) = Some ?p"
    by (simp add: fresh_page_def effect_subscribe_def effect_cleanup_def removeChannel_def
        deliver_def onAlertInsert_def initial_state_def)
  have c: "channel ?p = Some 1" by simp
  from mounted_notification_prepends_one [OF l c, of alert2]
  have "alerts (page_view (deliver alert2 ?p))
      = spread alert2 False None # alerts (page_view ?p)"
    by (rule conjunct1)
  then have a: "alerts (page_view (deliver alert2 ?p))
      = [spread alert2 False None, spread alert1 False None]"
    by simp
  show ?thesis
    by (intro conjI) (rule l a)+
qed

end
